theory Spec2Isabelle
  imports Main "HOL-Library.AList"
begin

section \<open>Asynchronous successive halving: the pruner of optuna/pruners/successive\_halving.py\<close>

subsection \<open>Values, failures and the study direction\<close>

text \<open>
  A reported value is a Python float. \<open>math.isnan\<close> separates NaN from the numbers, and
  the numbers are compared with \<open>\<le>\<close> and \<open>\<ge>\<close> and sorted: all the program uses of
  them is their linear order. The numbers are therefore any linearly ordered type \<open>'v\<close>
  (the theorems hold for each one, the doubles with their infinities among them), and a
  float is NaN or a number.

  A completion marker is written only after the NaN test of \<open>prune\<close> has failed, so the
  values kept under the markers are numbers: the attribute dictionaries hold \<open>'v\<close>.
\<close>

datatype 'v pyfloat = NaN | Num 'v

text \<open>The exceptions the modelled statements can raise.\<close>

datatype exn = ValueError | KeyError | IndexError | ZeroDivisionError

text \<open>
  Modelled from the spec: \<open>optuna.structs.StudyDirection\<close> is imported by the source and
  declared elsewhere; the specification gives the direction as minimize or maximize.
\<close>

datatype StudyDirection = MINIMIZE | MAXIMIZE

subsection \<open>Trials, the study and its trial store\<close>

text \<open>
  Modelled from the spec: \<open>FrozenTrial\<close> is declared outside the source file. The fields
  are the ones \<open>prune\<close> reads: \<open>trial._trial_id\<close>, \<open>trial.last_step\<close> (absent before
  the first report), \<open>trial.intermediate_values\<close> (a dictionary from step to value) and
  \<open>trial.system_attrs\<close> (a dictionary from attribute key to value). Dictionaries are
  association lists read with \<open>map_of\<close> and written with \<open>AList.update\<close>, which
  replaces the value of a key that is present and appends a key that is not.
\<close>

record 'v FrozenTrial =
  trial_id :: nat
  last_step :: "int option"
  intermediate_values :: "(int \<times> 'v pyfloat) list"
  system_attrs :: "(string \<times> 'v) list"

text \<open>
  Modelled from the spec: the study owns the direction and the trial store. The store is
  the list of the trials' records. \<open>attr_writes\<close> is the trace of the calls of
  \<open>set_trial_system_attr\<close> (trial id, key, value), the most recent first: it makes the
  writes of a call observable.
\<close>

record 'v Study =
  direction :: StudyDirection
  stored_trials :: "'v FrozenTrial list"
  attr_writes :: "(nat \<times> string \<times> 'v) list"

text \<open>
  Modelled from the spec: \<open>study.get_trials(deepcopy=False)\<close> enumerates all trials, as
  a snapshot of the store at the time of the call.
\<close>

definition get_trials :: "'v Study \<Rightarrow> 'v FrozenTrial list" where
  "get_trials study = stored_trials study"

text \<open>
  Modelled from the spec: \<open>study._storage.set_trial_system_attr(trial_id, key, value)\<close>
  persists the attribute on exactly the named trial.
\<close>

definition set_attr :: "string \<Rightarrow> 'v \<Rightarrow> 'v FrozenTrial \<Rightarrow> 'v FrozenTrial" where
  "set_attr key v t = t\<lparr>system_attrs := AList.update key v (system_attrs t)\<rparr>"

definition set_trial_system_attr :: "'v Study \<Rightarrow> nat \<Rightarrow> string \<Rightarrow> 'v \<Rightarrow> 'v Study" where
  "set_trial_system_attr study tid key v =
     study\<lparr>stored_trials :=
              map (\<lambda>t. if trial_id t = tid then set_attr key v t else t) (stored_trials study),
            attr_writes := (tid, key, v) # attr_writes study\<rparr>"

text \<open>
  Modelled from the spec: \<open>study._storage.get_trial(trial_id)\<close>, the read by which a
  caller obtains the frozen trial it passes to \<open>prune\<close>.
\<close>

definition get_trial :: "'v Study \<Rightarrow> nat \<Rightarrow> 'v FrozenTrial option" where
  "get_trial study tid = find (\<lambda>t. trial_id t = tid) (stored_trials study)"

subsection \<open>Construction\<close>

record pruner =
  min_resource :: int
  reduction_factor :: int
  min_early_stopping_rate :: int

text \<open>\<open>SuccessiveHalvingPruner.__init__\<close>: the three checks, in the order of the source.\<close>

definition init :: "int \<Rightarrow> int \<Rightarrow> int \<Rightarrow> exn + pruner" where
  "init mr rf mesr =
     (if mr < 1 then Inl ValueError
      else if rf < 2 then Inl ValueError
      else if mesr < 0 then Inl ValueError
      else Inr \<lparr>min_resource = mr, reduction_factor = rf, min_early_stopping_rate = mesr\<rparr>)"

subsection \<open>Rung keys\<close>

text \<open>
  \<open>'completed_rung_{}'.format(rung)\<close>: the decimal numeral of the rung, without leading
  zeros, after the fixed prefix. A rung is a natural number: it starts at 0 and is only
  incremented.
\<close>

definition digit_char :: "nat \<Rightarrow> char" where
  "digit_char d = char_of (48 + d)"

fun decimal :: "nat \<Rightarrow> string" where
  "decimal n = (if n < 10 then [digit_char n] else decimal (n div 10) @ [digit_char (n mod 10)])"

declare decimal.simps [simp del]

definition completed_rung_key :: "nat \<Rightarrow> string" where
  "completed_rung_key rung = ''completed_rung_'' @ decimal rung"

lemma digit_char_inj: "a < 10 \<Longrightarrow> b < 10 \<Longrightarrow> digit_char a = digit_char b \<Longrightarrow> a = b"
proof -
  assume a: "a < 10" and b: "b < 10" and e: "digit_char a = digit_char b"
  have "of_char (digit_char a) = (of_char (digit_char b) :: nat)"
    using e by simp
  then have "(48 + a) mod 256 = (48 + b) mod 256"
    by (simp add: digit_char_def)
  with a b show "a = b" by simp
qed

lemma decimal_nonempty: "decimal n \<noteq> []"
  by (subst decimal.simps) simp

lemma decimal_inj: "decimal n = decimal m \<Longrightarrow> n = m"
proof (induction n arbitrary: m rule: decimal.induct)
  case (1 n)
  show ?case
  proof (cases "n < 10")
    case small_n: True
    show ?thesis
    proof (cases "m < 10")
      case True
      with small_n "1.prems" show ?thesis
        by (simp add: decimal.simps [of n] decimal.simps [of m] digit_char_inj)
    next
      case False
      with small_n "1.prems" decimal_nonempty [of "m div 10"] show ?thesis
        by (simp add: decimal.simps [of n] decimal.simps [of m])
    qed
  next
    case big_n: False
    show ?thesis
    proof (cases "m < 10")
      case True
      with big_n "1.prems" decimal_nonempty [of "n div 10"] show ?thesis
        by (simp add: decimal.simps [of n] decimal.simps [of m])
    next
      case False
      with big_n "1.prems" have q: "decimal (n div 10) = decimal (m div 10)"
        and r: "digit_char (n mod 10) = digit_char (m mod 10)"
        by (simp_all add: decimal.simps [of n] decimal.simps [of m])
      from "1.IH" [OF big_n q] have "n div 10 = m div 10" .
      moreover from r have "n mod 10 = m mod 10"
        by (auto intro: digit_char_inj)
      ultimately show ?thesis
        by (metis div_mult_mod_eq)
    qed
  qed
qed

lemma completed_rung_key_inj [simp]:
  "(completed_rung_key r = completed_rung_key s) = (r = s)"
  by (auto simp: completed_rung_key_def dest: decimal_inj)

subsection \<open>The current rung\<close>

text \<open>
  \<open>_get_current_rung\<close>: the loop \<open>while _completed_rung_key(rung) in trial.system_attrs\<close>
  from a given rung on. It ends because the dictionary is finite and the keys of distinct
  rungs are distinct.
\<close>

function current_rung_loop :: "(string \<times> 'v) list \<Rightarrow> nat \<Rightarrow> nat" where
  "current_rung_loop attrs rung =
     (if map_of attrs (completed_rung_key rung) \<noteq> None
      then current_rung_loop attrs (rung + 1) else rung)"
  by pat_completeness auto
termination
proof (relation "measure (\<lambda>(attrs, rung).
         card (dom (map_of attrs) - completed_rung_key ` {..<rung}))")
  show "wf (measure (\<lambda>(attrs :: (string \<times> 'v) list, rung).
         card (dom (map_of attrs) - completed_rung_key ` {..<rung})))"
    by simp
next
  fix attrs :: "(string \<times> 'v) list" and rung :: nat
  assume m: "map_of attrs (completed_rung_key rung) \<noteq> None"
  let ?D = "dom (map_of attrs)"
  have fin: "finite (?D - completed_rung_key ` {..<rung})"
    by (simp add: finite_dom_map_of)
  have mem: "completed_rung_key rung \<in> ?D - completed_rung_key ` {..<rung}"
    using m by (auto simp: dom_def)
  have eq: "?D - completed_rung_key ` {..<rung + 1} =
        (?D - completed_rung_key ` {..<rung}) - {completed_rung_key rung}"
    by (auto simp: less_Suc_eq)
  have "card (?D - completed_rung_key ` {..<rung + 1}) <
        card (?D - completed_rung_key ` {..<rung})"
    unfolding eq using fin mem by (rule card_Diff1_less)
  then show "((attrs, rung + 1), (attrs, rung)) \<in> measure (\<lambda>(attrs, rung).
         card (dom (map_of attrs) - completed_rung_key ` {..<rung}))"
    by simp
qed

declare current_rung_loop.simps [simp del]

definition get_current_rung :: "'v FrozenTrial \<Rightarrow> nat" where
  "get_current_rung trial = current_rung_loop (system_attrs trial) 0"

subsection \<open>Competing values and the promotion decision\<close>

text \<open>
  \<open>_get_competing_values\<close>: the marker value of every trial of the snapshot that has the
  rung's key, in the order of the snapshot, and then the deciding trial's value.
\<close>

definition get_competing_values :: "'v FrozenTrial list \<Rightarrow> 'v \<Rightarrow> string \<Rightarrow> 'v list" where
  "get_competing_values trials val rung_key =
     map (\<lambda>t. the (map_of (system_attrs t) rung_key))
       (filter (\<lambda>t. map_of (system_attrs t) rung_key \<noteq> None) trials) @ [val]"

text \<open>
  Subscription \<open>xs[i]\<close> of a Python list: an index below zero counts from the end, and an
  index outside \<open>-len(xs) .. len(xs) - 1\<close> raises \<open>IndexError\<close>.
\<close>

definition subscript :: "'a list \<Rightarrow> int \<Rightarrow> exn + 'a" where
  "subscript xs i =
     (if 0 \<le> i \<and> i < int (length xs) then Inr (xs ! nat i)
      else if i < 0 \<and> - int (length xs) \<le> i then Inr (xs ! nat (int (length xs) + i))
      else Inl IndexError)"

text \<open>
  The index computed in the first lines of \<open>_is_trial_promotable_to_next_rung\<close>:
  \<open>(len(competing_values) // reduction_factor) - 1\<close>, replaced by 0 when it is -1. The
  operator \<open>//\<close> rounds towards minus infinity, as \<open>div\<close> on \<open>int\<close> does; the division
  by zero is raised by the caller below.
\<close>

definition promotable_idx :: "nat \<Rightarrow> int \<Rightarrow> int" where
  "promotable_idx n rf = (let idx = (int n div rf) - 1 in if idx = - 1 then 0 else idx)"

text \<open>
  \<open>_is_trial_promotable_to_next_rung\<close>. \<open>competing_values.sort()\<close> sorts ascending; on a
  linear order the sorted list is the one \<open>sort\<close> returns.
\<close>

definition is_trial_promotable_to_next_rung ::
  "'v::linorder \<Rightarrow> 'v list \<Rightarrow> int \<Rightarrow> StudyDirection \<Rightarrow> exn + bool" where
  "is_trial_promotable_to_next_rung val competing_values rf study_direction =
     (if rf = 0 then Inl ZeroDivisionError
      else
        let idx = promotable_idx (length competing_values) rf;
            sorted_values = sort competing_values
        in if study_direction = MAXIMIZE
           then (case subscript sorted_values (- (idx + 1)) of
                   Inl e \<Rightarrow> Inl e
                 | Inr c \<Rightarrow> Inr (val \<ge> c))
           else (case subscript sorted_values idx of
                   Inl e \<Rightarrow> Inl e
                 | Inr c \<Rightarrow> Inr (val \<le> c)))"

subsection \<open>The prune decision\<close>

text \<open>
  The threshold of a rung, \<open>rung_promotion_step\<close> in the loop of \<open>prune\<close>:
  \<open>min_resource * reduction_factor ** (min_early_stopping_rate + rung)\<close>. A pruner exists
  only after \<open>__init__\<close> has accepted its parameters, so \<open>min_early_stopping_rate\<close> is
  not negative and the exponent is a natural number.
\<close>

definition rung_promotion_step :: "pruner \<Rightarrow> nat \<Rightarrow> int" where
  "rung_promotion_step self rung =
     min_resource self * reduction_factor self ^ nat (min_early_stopping_rate self + int rung)"

text \<open>
  The loop \<open>while True\<close> of \<open>prune\<close>. The state is the study (its store is written),
  the lazily fetched snapshot \<open>trials\<close> (\<open>None\<close> until the first fetch) and the rung.
  The result is the returned boolean, or the exception, with the study as the call
  leaves it. The loop has no bound in the source: a run that never returns is \<open>None\<close>.
\<close>

partial_function (option) prune_loop ::
  "pruner \<Rightarrow> 'v::linorder FrozenTrial \<Rightarrow> int \<Rightarrow> 'v pyfloat \<Rightarrow> 'v FrozenTrial list option \<Rightarrow>
   'v Study \<Rightarrow> nat \<Rightarrow> ((exn + bool) \<times> 'v Study) option" where
  "prune_loop self trial step val trials study rung =
     (if step < rung_promotion_step self rung then Some (Inr False, study)
      else case val of
        NaN \<Rightarrow> Some (Inr True, study)
      | Num v \<Rightarrow>
          let trials' = (case trials of None \<Rightarrow> get_trials study | Some ts \<Rightarrow> ts);
              rung_key = completed_rung_key rung;
              study' = set_trial_system_attr study (trial_id trial) rung_key v
          in case is_trial_promotable_to_next_rung v
                    (get_competing_values trials' v rung_key)
                    (reduction_factor self) (direction study') of
               Inl e \<Rightarrow> Some (Inl e, study')
             | Inr promotable \<Rightarrow>
                 if \<not> promotable then Some (Inr True, study')
                 else prune_loop self trial step val (Some trials') study' (rung + 1))"

declare prune_loop.simps [code]

text \<open>
  \<open>SuccessiveHalvingPruner.prune\<close>. \<open>trial.intermediate_values[step]\<close> raises
  \<open>KeyError\<close> when the dictionary has no value for the step.
\<close>

definition prune ::
  "pruner \<Rightarrow> 'v::linorder Study \<Rightarrow> 'v FrozenTrial \<Rightarrow> ((exn + bool) \<times> 'v Study) option" where
  "prune self study trial =
     (case last_step trial of
        None \<Rightarrow> Some (Inr False, study)
      | Some step \<Rightarrow>
          let rung = get_current_rung trial in
          case map_of (intermediate_values trial) step of
            None \<Rightarrow> Some (Inl KeyError, study)
          | Some val \<Rightarrow> prune_loop self trial step val None study rung)"

subsection \<open>Notions of the specification\<close>

text \<open>
  The promotion rule as the specification words it: with \<open>n\<close> competing values the
  cutoff index is \<open>max(0, floor(n / reduction_factor) - 1)\<close>; a minimising trial is
  promoted iff its value is at most the \<open>(idx+1)\<close>-th smallest competing value, a
  maximising trial iff its value is at least the \<open>(idx+1)\<close>-th largest.
\<close>

definition spec_cutoff_idx :: "nat \<Rightarrow> int \<Rightarrow> nat" where
  "spec_cutoff_idx n rf = nat (max 0 (int n div rf - 1))"

definition spec_promote :: "'v::linorder \<Rightarrow> 'v list \<Rightarrow> int \<Rightarrow> StudyDirection \<Rightarrow> bool" where
  "spec_promote v cv rf d =
     (let idx = spec_cutoff_idx (length cv) rf
      in case d of
           MINIMIZE \<Rightarrow> v \<le> sort cv ! idx
         | MAXIMIZE \<Rightarrow> v \<ge> rev (sort cv) ! idx)"

text \<open>The snapshot in force in an iteration of the loop, after the lazy fetch.\<close>

definition snapshot :: "'v FrozenTrial list option \<Rightarrow> 'v Study \<Rightarrow> 'v FrozenTrial list" where
  "snapshot trials study = (case trials of None \<Rightarrow> get_trials study | Some ts \<Rightarrow> ts)"

text \<open>
  A trial has the completion marker of a rung when the rung's key is in its attributes.
  The markers form a prefix when no rung \<open>s + 1\<close> is marked without rung \<open>s\<close>.
\<close>

definition has_marker :: "(string \<times> 'v) list \<Rightarrow> nat \<Rightarrow> bool" where
  "has_marker attrs r = (map_of attrs (completed_rung_key r) \<noteq> None)"

definition markers_form_prefix :: "(string \<times> 'v) list \<Rightarrow> bool" where
  "markers_form_prefix attrs = (\<forall>s. has_marker attrs (Suc s) \<longrightarrow> has_marker attrs s)"

text \<open>
  The effect of the writes of a call, on the attributes of the trial and on the study:
  the markers of the rungs \<open>rs\<close>, in this order, all with the value \<open>v\<close>.
\<close>

definition mark_rungs :: "'v \<Rightarrow> nat list \<Rightarrow> (string \<times> 'v) list \<Rightarrow> (string \<times> 'v) list" where
  "mark_rungs v rs attrs = fold (\<lambda>r. AList.update (completed_rung_key r) v) rs attrs"

definition write_rungs :: "'v Study \<Rightarrow> nat \<Rightarrow> 'v \<Rightarrow> nat list \<Rightarrow> 'v Study" where
  "write_rungs study tid v rs =
     fold (\<lambda>r s. set_trial_system_attr s tid (completed_rung_key r) v) rs study"

subsection \<open>Example data\<close>

text \<open>The default pruner of the source, and one that halves.\<close>

definition default_pruner :: pruner where
  "default_pruner = \<lparr>min_resource = 1, reduction_factor = 4, min_early_stopping_rate = 0\<rparr>"

definition halving_pruner :: pruner where
  "halving_pruner = \<lparr>min_resource = 1, reduction_factor = 2, min_early_stopping_rate = 0\<rparr>"

text \<open>A trial with the given id, last report and attributes; values are integers here.\<close>

definition reported :: "nat \<Rightarrow> int \<Rightarrow> int pyfloat \<Rightarrow> (string \<times> int) list \<Rightarrow> int FrozenTrial" where
  "reported tid step val attrs =
     \<lparr>trial_id = tid, last_step = Some step, intermediate_values = [(step, val)],
      system_attrs = attrs\<rparr>"

definition unreported :: "nat \<Rightarrow> int FrozenTrial" where
  "unreported tid =
     \<lparr>trial_id = tid, last_step = None, intermediate_values = [], system_attrs = []\<rparr>"

definition minimizing :: "int FrozenTrial list \<Rightarrow> int Study" where
  "minimizing ts = \<lparr>direction = MINIMIZE, stored_trials = ts, attr_writes = []\<rparr>"

text \<open>
  A trial alone in its study; a trial that meets a better one at rung 0; and a trial among
  three that have completed rung 0.
\<close>

definition solo :: "int FrozenTrial" where
  "solo = reported 0 5 (Num 10) []"

definition rival :: "int FrozenTrial" where
  "rival = reported 0 1 (Num 1) [(completed_rung_key 0, 1)]"

definition loser :: "int FrozenTrial" where
  "loser = reported 1 1 (Num 2) []"

definition contenders :: "int FrozenTrial list" where
  "contenders = [reported 0 1 (Num 5) [(completed_rung_key 0, 5)],
                 reported 1 2 (Num 7) [(completed_rung_key 0, 7)],
                 reported 2 4 (Num 1) [],
                 reported 3 1 (Num 9) [(completed_rung_key 0, 9)]]"

section \<open>Properties\<close>

subsection \<open>Auxiliary facts\<close>

lemma init_Inr:
  "init mr rf mesr = Inr self \<Longrightarrow>
     1 \<le> min_resource self \<and> 2 \<le> reduction_factor self \<and> 0 \<le> min_early_stopping_rate self"
  by (auto simp: init_def split: if_splits)

lemma promotable_idx_range:
  assumes rf: "2 \<le> rf" and n: "0 < n"
  shows "0 \<le> promotable_idx n rf" and "promotable_idx n rf < int n"
    and "promotable_idx n rf = max 0 (int n div rf - 1)"
proof -
  have q0: "0 \<le> int n div rf"
    using rf by (simp add: pos_imp_zdiv_nonneg_iff)
  have qn: "int n div rf \<le> int n"
    using rf zdiv_mono2 [of "int n" 1 rf] by simp
  show "0 \<le> promotable_idx n rf"
    using q0 by (simp add: promotable_idx_def Let_def)
  show "promotable_idx n rf < int n"
    using qn n by (simp add: promotable_idx_def Let_def)
  show "promotable_idx n rf = max 0 (int n div rf - 1)"
    using q0 by (simp add: promotable_idx_def Let_def max_def)
qed

lemma subscript_front:
  "0 \<le> i \<Longrightarrow> i < int (length xs) \<Longrightarrow> subscript xs i = Inr (xs ! nat i)"
  by (simp add: subscript_def)

lemma subscript_from_end:
  assumes "0 \<le> i" and "i < int (length xs)"
  shows "subscript xs (- (i + 1)) = Inr (rev xs ! nat i)"
proof -
  have k: "nat i < length xs" using assms by simp
  have "nat (int (length xs) + - (i + 1)) = length xs - Suc (nat i)"
    using assms by simp
  then show ?thesis
    using assms k by (simp add: subscript_def rev_nth)
qed

lemma promotable_total:
  assumes rf: "2 \<le> rf" and ne: "cv \<noteq> []"
  shows "is_trial_promotable_to_next_rung v cv rf d =
           Inr (if d = MAXIMIZE then v \<ge> rev (sort cv) ! nat (promotable_idx (length cv) rf)
                else v \<le> sort cv ! nat (promotable_idx (length cv) rf))"
proof -
  let ?i = "promotable_idx (length cv) rf"
  have n: "0 < length cv" using ne by simp
  have lo: "0 \<le> ?i" and hi: "?i < int (length (sort cv))"
    using promotable_idx_range [OF rf n] by simp_all
  have rf0: "rf \<noteq> 0" using rf by simp
  show ?thesis
    using rf0 subscript_front [OF lo hi] subscript_from_end [OF lo hi]
    by (simp add: is_trial_promotable_to_next_rung_def Let_def)
qed

lemma get_competing_values_nonempty: "get_competing_values trials v key \<noteq> []"
  by (simp add: get_competing_values_def)

lemma count_list_append: "count_list (xs @ ys) x = count_list xs x + count_list ys x"
  by (induction xs) simp_all

text \<open>One iteration of the loop, by the branch it takes.\<close>

lemma prune_loop_below:
  "step < rung_promotion_step self rung \<Longrightarrow>
     prune_loop self trial step val trials study rung = Some (Inr False, study)"
  by (subst prune_loop.simps) simp

lemma prune_loop_nan:
  "rung_promotion_step self rung \<le> step \<Longrightarrow>
     prune_loop self trial step NaN trials study rung = Some (Inr True, study)"
  by (subst prune_loop.simps) simp

lemma prune_loop_pruned:
  assumes "rung_promotion_step self rung \<le> step"
    and "is_trial_promotable_to_next_rung v
           (get_competing_values (snapshot trials study) v (completed_rung_key rung))
           (reduction_factor self) (direction study) = Inr False"
  shows "prune_loop self trial step (Num v) trials study rung =
           Some (Inr True, set_trial_system_attr study (trial_id trial) (completed_rung_key rung) v)"
  using assms
  by (subst prune_loop.simps) (simp add: snapshot_def Let_def set_trial_system_attr_def)

lemma prune_loop_promoted:
  assumes "rung_promotion_step self rung \<le> step"
    and "is_trial_promotable_to_next_rung v
           (get_competing_values (snapshot trials study) v (completed_rung_key rung))
           (reduction_factor self) (direction study) = Inr True"
  shows "prune_loop self trial step (Num v) trials study rung =
           prune_loop self trial step (Num v) (Some (snapshot trials study))
             (set_trial_system_attr study (trial_id trial) (completed_rung_key rung) v) (rung + 1)"
  using assms
  by (subst prune_loop.simps) (simp add: snapshot_def Let_def set_trial_system_attr_def)

text \<open>The current rung is the smallest rung without a marker.\<close>

lemma current_rung_loop_ge: "r0 \<le> current_rung_loop attrs r0"
proof (induction attrs r0 rule: current_rung_loop.induct)
  case (1 attrs rung)
  then show ?case
    by (subst current_rung_loop.simps) (auto simp: Suc_leD)
qed

lemma current_rung_loop_unmarked: "\<not> has_marker attrs (current_rung_loop attrs r0)"
proof (induction attrs r0 rule: current_rung_loop.induct)
  case (1 attrs rung)
  then show ?case
    by (subst current_rung_loop.simps) (simp add: has_marker_def)
qed

lemma current_rung_loop_marked:
  "r0 \<le> r \<Longrightarrow> r < current_rung_loop attrs r0 \<Longrightarrow> has_marker attrs r"
proof (induction attrs r0 rule: current_rung_loop.induct)
  case (1 attrs rung)
  show ?case
  proof (cases "map_of attrs (completed_rung_key rung) \<noteq> None")
    case True
    show ?thesis
    proof (cases "r = rung")
      case True
      with \<open>map_of attrs (completed_rung_key rung) \<noteq> None\<close> show ?thesis
        by (simp add: has_marker_def)
    next
      case False
      with "1.prems" have "rung + 1 \<le> r" by simp
      moreover have "r < current_rung_loop attrs (rung + 1)"
        using "1.prems"(2) True by (subst (asm) current_rung_loop.simps) simp
      ultimately show ?thesis
        using "1.IH" True by blast
    qed
  next
    case False
    then have "current_rung_loop attrs rung = rung"
      by (subst current_rung_loop.simps) simp
    with "1.prems" show ?thesis by simp
  qed
qed

lemma current_rung_loop_unique:
  assumes "\<And>r. has_marker attrs r = (r < k)"
  shows "current_rung_loop attrs 0 = k"
proof -
  let ?c = "current_rung_loop attrs 0"
  have "\<not> ?c < k"
    using current_rung_loop_unmarked [of attrs 0] assms by simp
  moreover have "\<not> k < ?c"
  proof
    assume "k < ?c"
    then have "has_marker attrs k"
      using current_rung_loop_marked [of 0 k attrs] by simp
    with assms show False by simp
  qed
  ultimately show ?thesis by simp
qed

lemma prefix_downward:
  assumes "markers_form_prefix attrs" and "has_marker attrs r" and "s \<le> r"
  shows "has_marker attrs s"
  using assms(3,2)
proof (induction rule: inc_induct)
  case base
  then show ?case .
next
  case (step n)
  then show ?case
    using assms(1) by (simp add: markers_form_prefix_def)
qed

lemma prefix_markers:
  assumes "markers_form_prefix attrs"
  shows "has_marker attrs r = (r < current_rung_loop attrs 0)"
proof
  assume m: "has_marker attrs r"
  show "r < current_rung_loop attrs 0"
  proof (rule ccontr)
    assume "\<not> r < current_rung_loop attrs 0"
    then have "current_rung_loop attrs 0 \<le> r" by simp
    from prefix_downward [OF assms m this] current_rung_loop_unmarked [of attrs 0]
    show False by simp
  qed
next
  assume "r < current_rung_loop attrs 0"
  then show "has_marker attrs r"
    using current_rung_loop_marked [of 0 r attrs] by simp
qed

lemma prefix_from_bound:
  "(\<And>r. has_marker attrs r = (r < k)) \<Longrightarrow> markers_form_prefix attrs"
  by (simp add: markers_form_prefix_def)

lemma no_markers_prefix: "markers_form_prefix []"
  by (simp add: markers_form_prefix_def has_marker_def)

text \<open>What a sequence of writes leaves in the attributes, the trace and the store.\<close>

lemma has_marker_mark_rungs:
  "has_marker (mark_rungs v rs attrs) r = (r \<in> set rs \<or> has_marker attrs r)"
proof (induction rs arbitrary: attrs)
  case Nil
  then show ?case by (simp add: mark_rungs_def)
next
  case (Cons a rs)
  have "has_marker (AList.update (completed_rung_key a) v attrs) r = (r = a \<or> has_marker attrs r)"
    by (auto simp: has_marker_def update_conv')
  with Cons [of "AList.update (completed_rung_key a) v attrs"] show ?case
    by (auto simp: mark_rungs_def)
qed

lemma attr_writes_write_rungs:
  "attr_writes (write_rungs study tid v rs) =
     rev (map (\<lambda>r. (tid, completed_rung_key r, v)) rs) @ attr_writes study"
proof (induction rs arbitrary: study)
  case Nil
  then show ?case by (simp add: write_rungs_def)
next
  case (Cons a rs)
  from Cons [of "set_trial_system_attr study tid (completed_rung_key a) v"] show ?case
    by (simp add: write_rungs_def set_trial_system_attr_def)
qed

lemma find_map_update:
  "find (\<lambda>t. trial_id t = tid) (map (\<lambda>t. if trial_id t = tid then set_attr key v t else t) ts)
     = map_option (set_attr key v) (find (\<lambda>t. trial_id t = tid) ts)"
  by (induction ts) (simp_all add: set_attr_def)

lemma get_trial_write_rungs:
  "get_trial (write_rungs study tid v rs) tid =
     map_option (\<lambda>t. t\<lparr>system_attrs := mark_rungs v rs (system_attrs t)\<rparr>) (get_trial study tid)"
proof (induction rs arbitrary: study)
  case Nil
  then show ?case by (simp add: write_rungs_def mark_rungs_def option.map_ident)
next
  case (Cons a rs)
  let ?s = "set_trial_system_attr study tid (completed_rung_key a) v"
  have "get_trial ?s tid = map_option (set_attr (completed_rung_key a) v) (get_trial study tid)"
    by (simp add: get_trial_def set_trial_system_attr_def find_map_update)
  with Cons [of ?s] show ?case
    by (simp add: write_rungs_def mark_rungs_def option.map_comp comp_def set_attr_def)
qed

lemma write_rungs_step:
  "lo < hi \<Longrightarrow>
     write_rungs (set_trial_system_attr study tid (completed_rung_key lo) v) tid v [Suc lo..<hi]
       = write_rungs study tid v [lo..<hi]"
  by (simp add: write_rungs_def upt_conv_Cons)

lemma prefix_after_marking:
  assumes "markers_form_prefix attrs" and "current_rung_loop attrs 0 \<le> hi"
  shows "has_marker (mark_rungs v [current_rung_loop attrs 0..<hi] attrs) r = (r < hi)"
  using assms(2) by (auto simp: has_marker_mark_rungs prefix_markers [OF assms(1)])

text \<open>
  A rung is below its own threshold, so the loop of \<open>prune\<close> passes at most \<open>step\<close>
  rungs: it returns. On a number it writes the markers of the rungs from the one it starts
  at up to some rung \<open>hi\<close>; it returns \<open>False\<close> when the step is below the threshold
  of \<open>hi\<close>, and \<open>True\<close> when the comparison at rung \<open>hi - 1\<close> is lost.
\<close>

lemma rung_below_threshold:
  assumes "1 \<le> min_resource self" and "2 \<le> reduction_factor self"
    and "0 \<le> min_early_stopping_rate self"
  shows "int rung < rung_promotion_step self rung"
proof -
  let ?e = "nat (min_early_stopping_rate self + int rung)"
  have "int rung < int (2 ^ rung)"
    by (simp only: of_nat_less_iff less_exp)
  then have "int rung < 2 ^ rung"
    by simp
  also have "(2::int) ^ rung \<le> 2 ^ ?e"
    using assms(3) by (intro power_increasing) simp_all
  also have "(2::int) ^ ?e \<le> reduction_factor self ^ ?e"
    using assms(2) by (intro power_mono) simp_all
  also have "reduction_factor self ^ ?e \<le> min_resource self * reduction_factor self ^ ?e"
    using assms(2) mult_right_mono [OF assms(1), of "reduction_factor self ^ ?e"] by simp
  finally show ?thesis
    by (simp add: rung_promotion_step_def)
qed

lemma prune_loop_run:
  assumes mr: "1 \<le> min_resource self" and rf: "2 \<le> reduction_factor self"
    and me: "0 \<le> min_early_stopping_rate self"
  shows "\<exists>hi b. rung \<le> hi \<and>
           prune_loop self trial step (Num v) trials study rung
             = Some (Inr b, write_rungs study (trial_id trial) v [rung..<hi]) \<and>
           (b \<longrightarrow> rung < hi) \<and> (\<not> b \<longrightarrow> step < rung_promotion_step self hi)"
proof (induction "nat step - rung" arbitrary: rung trials study rule: less_induct)
  case less
  let ?key = "completed_rung_key rung"
  let ?study' = "set_trial_system_attr study (trial_id trial) ?key v"
  show ?case
  proof (cases "step < rung_promotion_step self rung")
    case True
    then have "prune_loop self trial step (Num v) trials study rung
        = Some (Inr False, write_rungs study (trial_id trial) v [rung..<rung])"
      by (simp add: prune_loop_below write_rungs_def)
    with True show ?thesis by blast
  next
    case False
    then have reached: "rung_promotion_step self rung \<le> step" by simp
    obtain b0 where b0: "is_trial_promotable_to_next_rung v
           (get_competing_values (snapshot trials study) v ?key)
           (reduction_factor self) (direction study) = Inr b0"
      using promotable_total [OF rf get_competing_values_nonempty] by blast
    show ?thesis
    proof (cases b0)
      case False
      with b0 reached have "prune_loop self trial step (Num v) trials study rung
          = Some (Inr True, write_rungs study (trial_id trial) v [rung..<Suc rung])"
        by (simp add: prune_loop_pruned write_rungs_def)
      then show ?thesis
        by (intro exI [of _ "Suc rung"] exI [of _ True]) simp
    next
      case True
      have "int rung < step"
        using rung_below_threshold [OF mr rf me, of rung] reached by simp
      then have "nat step - (rung + 1) < nat step - rung" by simp
      from less [OF this, of "Some (snapshot trials study)" ?study']
      obtain hi b where hi: "rung + 1 \<le> hi"
        and run: "prune_loop self trial step (Num v) (Some (snapshot trials study)) ?study'
                    (rung + 1)
                  = Some (Inr b, write_rungs ?study' (trial_id trial) v [rung + 1..<hi])"
        and b: "b \<longrightarrow> rung + 1 < hi" "\<not> b \<longrightarrow> step < rung_promotion_step self hi"
        by blast
      have "prune_loop self trial step (Num v) trials study rung
          = Some (Inr b, write_rungs study (trial_id trial) v [rung..<hi])"
        using prune_loop_promoted [OF reached, of v trials study trial] b0 True run hi
          write_rungs_step [of rung hi study "trial_id trial" v]
        by simp
      with hi b show ?thesis
        by (intro exI [of _ hi] exI [of _ b]) simp
    qed
  qed
qed

lemma prune_outcome:
  assumes mr: "1 \<le> min_resource self" and rf: "2 \<le> reduction_factor self"
    and me: "0 \<le> min_early_stopping_rate self"
  shows "(\<exists>res. prune self study trial = Some (res, study)) \<or>
         (\<exists>step v hi b. last_step trial = Some step \<and>
            map_of (intermediate_values trial) step = Some (Num v) \<and>
            get_current_rung trial \<le> hi \<and>
            prune self study trial
              = Some (Inr b, write_rungs study (trial_id trial) v [get_current_rung trial..<hi]) \<and>
            (b \<longrightarrow> get_current_rung trial < hi) \<and>
            (\<not> b \<longrightarrow> step < rung_promotion_step self hi))"
proof (cases "last_step trial")
  case None
  then show ?thesis by (simp add: prune_def)
next
  case (Some step)
  show ?thesis
  proof (cases "map_of (intermediate_values trial) step")
    case None
    with Some show ?thesis by (simp add: prune_def)
  next
    case val: (Some val)
    show ?thesis
    proof (cases val)
      case NaN
      have "prune_loop self trial step NaN None study (get_current_rung trial)
              = Some (Inr False, study) \<or>
            prune_loop self trial step NaN None study (get_current_rung trial)
              = Some (Inr True, study)"
        using prune_loop_below [of step self "get_current_rung trial" trial NaN None study]
          prune_loop_nan [of self "get_current_rung trial" step trial None study]
        by (cases "step < rung_promotion_step self (get_current_rung trial)") simp_all
      with Some val NaN show ?thesis
        by (auto simp: prune_def)
    next
      case (Num v)
      from prune_loop_run [OF mr rf me, of "get_current_rung trial" trial step v None study]
      obtain hi b where "get_current_rung trial \<le> hi"
        and "prune_loop self trial step (Num v) None study (get_current_rung trial)
             = Some (Inr b, write_rungs study (trial_id trial) v [get_current_rung trial..<hi])"
        and "b \<longrightarrow> get_current_rung trial < hi"
        and "\<not> b \<longrightarrow> step < rung_promotion_step self hi"
        by blast
      with Some val Num show ?thesis
        by (intro disjI2 exI [of _ step] exI [of _ v] exI [of _ hi] exI [of _ b])
          (simp add: prune_def)
    qed
  qed
qed

subsection \<open>The promotion decision\<close>

text \<open>
  C1. For a reduction factor of at least 2 and a non-empty list of competing values, the
  promotion decision returns (it raises nothing) and promotes exactly when the
  specification's rule does: with \<open>idx = max(0, floor(n / reduction_factor) - 1)\<close>, the
  value is at most the \<open>(idx+1)\<close>-th smallest competing value when minimising, and at
  least the \<open>(idx+1)\<close>-th largest when maximising. Ties at the cutoff promote.
\<close>

theorem promotion_decision_meets_spec:
  assumes "2 \<le> rf" and "cv \<noteq> []"
  shows "is_trial_promotable_to_next_rung v cv rf d = Inr (spec_promote v cv rf d)"
proof -
  have "nat (promotable_idx (length cv) rf) = spec_cutoff_idx (length cv) rf"
    using promotable_idx_range(3) [of rf "length cv"] assms
    by (simp add: spec_cutoff_idx_def)
  then show ?thesis
    using promotable_total [OF assms, of v d]
    by (cases d) (simp_all add: spec_promote_def Let_def)
qed

theorem promotion_decision_meets_spec_witness:
  "(2::int) \<le> 4 \<and> [20, 5, 15, 10::int] \<noteq> [] \<and>
   is_trial_promotable_to_next_rung 5 [20, 5, 15, 10::int] 4 MINIMIZE = Inr True \<and>
   spec_promote 5 [20, 5, 15, 10::int] 4 MINIMIZE \<and>
   is_trial_promotable_to_next_rung 10 [20, 5, 15, 10::int] 4 MINIMIZE = Inr False \<and>
   is_trial_promotable_to_next_rung 20 [20, 5, 15, 10::int] 4 MAXIMIZE = Inr True \<and>
   \<not> spec_promote 15 [20, 5, 15, 10::int] 4 MAXIMIZE"
  using promotion_decision_meets_spec [of 4 "[20, 5, 15, 10::int]" 5 MINIMIZE]
    promotion_decision_meets_spec [of 4 "[20, 5, 15, 10::int]" 15 MAXIMIZE]
  by (simp add: spec_promote_def spec_cutoff_idx_def is_trial_promotable_to_next_rung_def
      promotable_idx_def subscript_def)

text \<open>
  C10. For a reduction factor of at least 2 and a non-empty list of \<open>n\<close> competing values,
  the clamped index lies in \<open>0 .. n - 1\<close>; the subscription \<open>sorted[idx]\<close> of the
  minimising branch and the subscription \<open>sorted[-(idx + 1)]\<close> of the maximising branch,
  which reads \<open>sorted[n - idx - 1]\<close>, both return an element; and the decision returns a
  boolean. The list that \<open>_get_competing_values\<close> builds is never empty, so the decision
  returns a boolean on it.
\<close>

theorem promotion_decision_in_range:
  assumes "2 \<le> rf" and "cv \<noteq> []"
  shows "0 \<le> promotable_idx (length cv) rf \<and>
         promotable_idx (length cv) rf \<le> int (length cv) - 1 \<and>
         subscript (sort cv) (promotable_idx (length cv) rf)
           = Inr (sort cv ! nat (promotable_idx (length cv) rf)) \<and>
         subscript (sort cv) (- (promotable_idx (length cv) rf + 1))
           = Inr (sort cv ! (length cv - nat (promotable_idx (length cv) rf) - 1)) \<and>
         (\<exists>b. is_trial_promotable_to_next_rung v cv rf d = Inr b) \<and>
         (\<exists>b. is_trial_promotable_to_next_rung v (get_competing_values trials v key) rf d = Inr b)"
proof -
  let ?i = "promotable_idx (length cv) rf"
  have n: "0 < length cv" using assms(2) by simp
  have lo: "0 \<le> ?i" and hi: "?i < int (length (sort cv))"
    using promotable_idx_range [OF assms(1) n] by simp_all
  have k: "nat ?i < length (sort cv)" using lo hi by simp
  have from_end: "subscript (sort cv) (- (?i + 1)) = Inr (sort cv ! (length cv - nat ?i - 1))"
    using subscript_from_end [OF lo hi] k by (simp add: rev_nth)
  show ?thesis
    using lo hi subscript_front [OF lo hi] from_end
      promotable_total [OF assms, of v d]
      promotable_total [OF assms(1) get_competing_values_nonempty, of v trials v key d]
    by simp
qed

theorem promotion_decision_in_range_witness:
  "(2::int) \<le> 2 \<and> [3, 1, 2::int] \<noteq> [] \<and>
   promotable_idx (length [3, 1, 2::int]) 2 = 0 \<and>
   subscript (sort [3, 1, 2::int]) 0 = Inr 1 \<and>
   subscript (sort [3, 1, 2::int]) (- 1) = Inr 3 \<and>
   is_trial_promotable_to_next_rung 2 [3, 1, 2::int] 2 MAXIMIZE = Inr False"
  using promotion_decision_in_range [of 2 "[3, 1, 2::int]" 2 MAXIMIZE "[]" "[]"]
  by (simp add: promotable_idx_def subscript_def is_trial_promotable_to_next_rung_def)

text \<open>
  C3 (as the code has it). The list passed to the decision holds one entry for every trial
  of the snapshot that has the rung's marker, and the deciding trial's value once more at
  the end: a value occurs as many times as there are snapshot trials that recorded it, plus
  one if it is the deciding trial's value. The length, which the cutoff index is computed
  from, counts trials, not distinct values. Only the set of its elements is the union of
  the recorded values and the deciding trial's value.
\<close>

theorem competing_values_one_per_trial:
  "set (get_competing_values trials v key)
     = {x. \<exists>t \<in> set trials. map_of (system_attrs t) key = Some x} \<union> {v} \<and>
   length (get_competing_values trials v key)
     = length (filter (\<lambda>t. map_of (system_attrs t) key \<noteq> None) trials) + 1 \<and>
   count_list (get_competing_values trials v key) x
     = length (filter (\<lambda>t. map_of (system_attrs t) key = Some x) trials)
       + (if x = v then 1 else 0)"
proof -
  have c: "count_list (map (\<lambda>t. the (map_of (system_attrs t) key))
              (filter (\<lambda>t. map_of (system_attrs t) key \<noteq> None) trials)) x
           = length (filter (\<lambda>t. map_of (system_attrs t) key = Some x) trials)"
    by (induction trials) auto
  have s: "set (map (\<lambda>t. the (map_of (system_attrs t) key))
              (filter (\<lambda>t. map_of (system_attrs t) key \<noteq> None) trials))
           = {x. \<exists>t \<in> set trials. map_of (system_attrs t) key = Some x}"
    by force
  show ?thesis
    using c s by (simp add: get_competing_values_def count_list_append)
qed

theorem competing_values_one_per_trial_witness:
  "get_competing_values
     [reported 0 1 (Num 1) [(completed_rung_key 0, 1)],
      reported 1 1 (Num 2) [(completed_rung_key 0, 2)],
      unreported 2,
      reported 3 1 (Num 2) [(completed_rung_key 0, 2)]] 2 (completed_rung_key 0)
     = [1, 2, 2, 2] \<and>
   count_list (get_competing_values
     [reported 0 1 (Num 1) [(completed_rung_key 0, 1)],
      reported 1 1 (Num 2) [(completed_rung_key 0, 2)],
      unreported 2,
      reported 3 1 (Num 2) [(completed_rung_key 0, 2)]] 2 (completed_rung_key 0)) 2 = 3"
  using competing_values_one_per_trial
    [of "[reported 0 1 (Num 1) [(completed_rung_key 0, 1)],
      reported 1 1 (Num 2) [(completed_rung_key 0, 2)],
      unreported 2,
      reported 3 1 (Num 2) [(completed_rung_key 0, 2)]]" 2 "completed_rung_key 0" 2]
  by (simp add: get_competing_values_def reported_def unreported_def)

text \<open>
  C3 as stated fails: three trials have recorded 1, 2 and 2 at rung 0 and the deciding
  trial's value is 2. The list is \<open>[1, 2, 2, 2]\<close>: the value 2 occurs three times, and
  with a reduction factor of 2 the minimising trial is promoted on the list, while on the
  set \<open>{1, 2}\<close> it would be pruned.
\<close>

theorem competing_values_not_a_set:
  "\<not> distinct (get_competing_values
       [reported 0 1 (Num 1) [(completed_rung_key 0, 1)],
        reported 1 1 (Num 2) [(completed_rung_key 0, 2)],
        reported 3 1 (Num 2) [(completed_rung_key 0, 2)]] 2 (completed_rung_key 0)) \<and>
   count_list (get_competing_values
       [reported 0 1 (Num 1) [(completed_rung_key 0, 1)],
        reported 1 1 (Num 2) [(completed_rung_key 0, 2)],
        reported 3 1 (Num 2) [(completed_rung_key 0, 2)]] 2 (completed_rung_key 0)) 2 = 3 \<and>
   is_trial_promotable_to_next_rung 2 (get_competing_values
       [reported 0 1 (Num 1) [(completed_rung_key 0, 1)],
        reported 1 1 (Num 2) [(completed_rung_key 0, 2)],
        reported 3 1 (Num 2) [(completed_rung_key 0, 2)]] 2 (completed_rung_key 0))
       2 MINIMIZE = Inr True \<and>
   is_trial_promotable_to_next_rung 2 (remdups (get_competing_values
       [reported 0 1 (Num 1) [(completed_rung_key 0, 1)],
        reported 1 1 (Num 2) [(completed_rung_key 0, 2)],
        reported 3 1 (Num 2) [(completed_rung_key 0, 2)]] 2 (completed_rung_key 0)))
       2 MINIMIZE = Inr False"
  by (simp add: get_competing_values_def reported_def
      is_trial_promotable_to_next_rung_def promotable_idx_def subscript_def)

subsection \<open>Construction and thresholds\<close>

text \<open>
  C8. Construction raises \<open>ValueError\<close> exactly when \<open>min_resource < 1\<close>,
  \<open>reduction_factor < 2\<close> or \<open>min_early_stopping_rate < 0\<close>, in particular for
  \<open>min_resource = 0\<close>, for \<open>reduction_factor = 1\<close> and for
  \<open>min_early_stopping_rate = -1\<close>, whatever the other parameters are; it returns the
  pruner with the three parameters exactly when \<open>min_resource \<ge> 1\<close>,
  \<open>reduction_factor \<ge> 2\<close> and \<open>min_early_stopping_rate \<ge> 0\<close>.
\<close>

theorem construction_checks:
  "(init mr rf mesr = Inl ValueError) = (mr < 1 \<or> rf < 2 \<or> mesr < 0) \<and>
   (init mr rf mesr =
      Inr \<lparr>min_resource = mr, reduction_factor = rf, min_early_stopping_rate = mesr\<rparr>)
     = (1 \<le> mr \<and> 2 \<le> rf \<and> 0 \<le> mesr) \<and>
   init 0 rf mesr = Inl ValueError \<and> init mr 1 mesr = Inl ValueError \<and>
   init mr rf (- 1) = Inl ValueError"
  by (auto simp: init_def)

theorem construction_checks_witness:
  "init 0 4 0 = Inl ValueError \<and> init 1 1 0 = Inl ValueError \<and>
   init 1 4 (- 1) = Inl ValueError \<and> init 1 4 0 = Inr default_pruner"
  using construction_checks [of 0 4 0] construction_checks [of 1 1 0]
    construction_checks [of 1 4 "- 1"] construction_checks [of 1 4 0]
  by (simp add: default_pruner_def)

text \<open>
  C9. For a pruner that construction has accepted, the threshold
  \<open>min_resource * reduction_factor ^ (min_early_stopping_rate + s)\<close> is strictly
  increasing in the rung \<open>s\<close>.
\<close>

theorem rung_threshold_strictly_increasing:
  assumes "init mr rf mesr = Inr self" and "s < t"
  shows "rung_promotion_step self s < rung_promotion_step self t"
proof -
  from init_Inr [OF assms(1)]
  have mr: "0 < min_resource self" and b: "1 < reduction_factor self"
    and e: "0 \<le> min_early_stopping_rate self"
    by simp_all
  have "nat (min_early_stopping_rate self + int s) < nat (min_early_stopping_rate self + int t)"
    using e assms(2) by simp
  then have "reduction_factor self ^ nat (min_early_stopping_rate self + int s)
      < reduction_factor self ^ nat (min_early_stopping_rate self + int t)"
    using b by (rule power_strict_increasing)
  then show ?thesis
    using mr by (simp add: rung_promotion_step_def)
qed

theorem rung_threshold_strictly_increasing_witness:
  "init 1 4 0 = Inr default_pruner \<and> (1::nat) < 3 \<and>
   rung_promotion_step default_pruner 1 = 4 \<and> rung_promotion_step default_pruner 3 = 64 \<and>
   rung_promotion_step default_pruner 1 < rung_promotion_step default_pruner 3"
proof -
  have h: "init 1 4 0 = Inr default_pruner"
    by (simp add: init_def default_pruner_def)
  have "rung_promotion_step default_pruner 1 < rung_promotion_step default_pruner 3"
    by (rule rung_threshold_strictly_increasing [OF h]) simp
  moreover have "rung_promotion_step default_pruner 1 = 4"
    and "rung_promotion_step default_pruner 3 = 64"
    by (simp_all add: rung_promotion_step_def default_pruner_def)
  ultimately show ?thesis using h by simp
qed

subsection \<open>The prune decision: the branches that write nothing\<close>

text \<open>
  C7. For a trial with no reported measurement (\<open>last_step\<close> is \<open>None\<close>), \<open>prune\<close>
  returns \<open>False\<close> and leaves the study as it was: the store and the trace of writes
  are unchanged.
\<close>

theorem no_report_no_prune:
  "last_step trial = None \<Longrightarrow> prune self study trial = Some (Inr False, study)"
  by (simp add: prune_def)

theorem no_report_no_prune_witness:
  "last_step (unreported 0) = None \<and>
   prune default_pruner (minimizing [unreported 0]) (unreported 0)
     = Some (Inr False, minimizing [unreported 0]) \<and>
   attr_writes (minimizing [unreported 0]) = []"
  using no_report_no_prune [of "unreported 0" default_pruner "minimizing [unreported 0]"]
  by (simp add: unreported_def minimizing_def)

text \<open>
  C6. For a trial whose last reported step is strictly below the threshold of its current
  rung, \<open>prune\<close> returns \<open>False\<close> and leaves the study as it was: no marker is
  written.
\<close>

theorem below_threshold_no_prune:
  assumes "last_step trial = Some step"
    and "map_of (intermediate_values trial) step = Some val"
    and "step < rung_promotion_step self (get_current_rung trial)"
  shows "prune self study trial = Some (Inr False, study)"
  using assms by (simp add: prune_def prune_loop_below)

theorem below_threshold_no_prune_witness:
  "last_step (reported 0 3 (Num 7) [(completed_rung_key 0, 5)]) = Some 3 \<and>
   map_of (intermediate_values (reported 0 3 (Num 7) [(completed_rung_key 0, 5)])) 3
     = Some (Num 7) \<and>
   get_current_rung (reported 0 3 (Num 7) [(completed_rung_key 0, 5)]) = 1 \<and>
   rung_promotion_step default_pruner 1 = 4 \<and>
   prune default_pruner (minimizing [reported 0 3 (Num 7) [(completed_rung_key 0, 5)]])
       (reported 0 3 (Num 7) [(completed_rung_key 0, 5)])
     = Some (Inr False, minimizing [reported 0 3 (Num 7) [(completed_rung_key 0, 5)]])"
proof -
  let ?t = "reported 0 3 (Num 7) [(completed_rung_key 0, 5)]"
  have l: "last_step ?t = Some 3"
    and v: "map_of (intermediate_values ?t) 3 = Some (Num 7)"
    by (simp_all add: reported_def)
  have r: "get_current_rung ?t = 1"
    by code_simp
  have th: "rung_promotion_step default_pruner 1 = 4"
    by (simp add: rung_promotion_step_def default_pruner_def)
  have "prune default_pruner (minimizing [?t]) ?t = Some (Inr False, minimizing [?t])"
    by (rule below_threshold_no_prune [OF l v]) (simp add: r th del: One_nat_def)
  then show ?thesis using l v r th by simp
qed

text \<open>
  C4. For a trial whose last reported value is NaN and whose last step has reached the
  threshold of its current rung, \<open>prune\<close> returns \<open>True\<close> and leaves the study as it
  was: no marker is written, for any rung.
\<close>

theorem nan_pruned_without_marker:
  assumes "last_step trial = Some step"
    and "map_of (intermediate_values trial) step = Some NaN"
    and "rung_promotion_step self (get_current_rung trial) \<le> step"
  shows "prune self study trial = Some (Inr True, study)"
  using assms by (simp add: prune_def prune_loop_nan)

theorem nan_pruned_without_marker_witness:
  "last_step (reported 0 5 NaN [(completed_rung_key 0, 5)]) = Some 5 \<and>
   map_of (intermediate_values (reported 0 5 NaN [(completed_rung_key 0, 5)])) 5 = Some NaN \<and>
   get_current_rung (reported 0 5 NaN [(completed_rung_key 0, 5)]) = 1 \<and>
   rung_promotion_step default_pruner 1 = 4 \<and>
   prune default_pruner (minimizing [reported 0 5 NaN [(completed_rung_key 0, 5)]])
       (reported 0 5 NaN [(completed_rung_key 0, 5)])
     = Some (Inr True, minimizing [reported 0 5 NaN [(completed_rung_key 0, 5)]])"
proof -
  let ?t = "reported 0 5 NaN [(completed_rung_key 0, 5)]"
  have l: "last_step ?t = Some 5"
    and v: "map_of (intermediate_values ?t) 5 = Some NaN"
    by (simp_all add: reported_def)
  have r: "get_current_rung ?t = 1"
    by code_simp
  have th: "rung_promotion_step default_pruner 1 = 4"
    by (simp add: rung_promotion_step_def default_pruner_def)
  have "prune default_pruner (minimizing [?t]) ?t = Some (Inr True, minimizing [?t])"
    by (rule nan_pruned_without_marker [OF l v]) (simp add: r th del: One_nat_def)
  then show ?thesis using l v r th by simp
qed

subsection \<open>The prune decision: markers\<close>

text \<open>
  C5. Let the pruner be one that construction has accepted, and let the frozen trial passed
  to \<open>prune\<close> carry the attributes of its record in the store, with markers that form a
  prefix. Then \<open>prune\<close> returns, and afterwards the rungs with a persisted marker on
  that trial are again a prefix: no rung \<open>s + 1\<close> is marked without rung \<open>s\<close>, and the
  marked rungs are exactly the rungs below the trial's new current rung.
\<close>

theorem markers_stay_prefix:
  assumes "init mr rf mesr = Inr self"
    and "get_trial study (trial_id trial) = Some stored"
    and "system_attrs stored = system_attrs trial"
    and "markers_form_prefix (system_attrs trial)"
  shows "\<exists>res study' stored'.
           prune self study trial = Some (res, study') \<and>
           get_trial study' (trial_id trial) = Some stored' \<and>
           markers_form_prefix (system_attrs stored') \<and>
           (\<forall>r. has_marker (system_attrs stored') r = (r < get_current_rung stored'))"
proof -
  from init_Inr [OF assms(1)]
  have mr: "1 \<le> min_resource self" and rf: "2 \<le> reduction_factor self"
    and me: "0 \<le> min_early_stopping_rate self"
    by simp_all
  from prune_outcome [OF mr rf me, of study trial]
  consider (quiet) res where "prune self study trial = Some (res, study)"
    | (ran) v hi b where "get_current_rung trial \<le> hi"
        "prune self study trial
           = Some (Inr b, write_rungs study (trial_id trial) v [get_current_rung trial..<hi])"
    by blast
  then show ?thesis
  proof cases
    case quiet
    have "markers_form_prefix (system_attrs stored)"
      using assms(3,4) by simp
    moreover from this have "\<forall>r. has_marker (system_attrs stored) r = (r < get_current_rung stored)"
      by (simp add: prefix_markers get_current_rung_def)
    ultimately show ?thesis
      using quiet assms(2) by blast
  next
    case ran
    let ?attrs = "mark_rungs v [get_current_rung trial..<hi] (system_attrs stored)"
    let ?stored' = "stored\<lparr>system_attrs := ?attrs\<rparr>"
    have g: "get_trial (write_rungs study (trial_id trial) v [get_current_rung trial..<hi])
               (trial_id trial) = Some ?stored'"
      using assms(2) by (simp add: get_trial_write_rungs)
    have m: "has_marker ?attrs r = (r < hi)" for r
      using prefix_after_marking [of "system_attrs trial" hi v r] assms(3,4) ran(1)
      by (simp add: get_current_rung_def)
    have p: "markers_form_prefix (system_attrs ?stored')"
      using m by (simp add: prefix_from_bound [of _ hi])
    have c: "get_current_rung ?stored' = hi"
      using m by (simp add: get_current_rung_def current_rung_loop_unique)
    show ?thesis
      using ran(2) g p m c by (intro exI conjI) (assumption | simp)+
  qed
qed

theorem markers_stay_prefix_witness:
  "init 1 4 0 = Inr default_pruner \<and>
   get_trial (minimizing contenders) (trial_id (reported 2 4 (Num 1) []))
     = Some (reported 2 4 (Num 1) []) \<and>
   markers_form_prefix (system_attrs (reported 2 4 (Num 1) [])) \<and>
   prune default_pruner (minimizing contenders) (reported 2 4 (Num 1) [])
     = Some (Inr False, write_rungs (minimizing contenders) 2 1 [0, 1]) \<and>
   get_trial (write_rungs (minimizing contenders) 2 1 [0, 1]) (trial_id (reported 2 4 (Num 1) []))
     = Some (reported 2 4 (Num 1) [(completed_rung_key 0, 1), (completed_rung_key 1, 1)]) \<and>
   markers_form_prefix [(completed_rung_key 0, 1::int), (completed_rung_key 1, 1)]"
proof -
  let ?t = "reported 2 4 (Num 1) []"
  let ?t' = "reported 2 4 (Num 1) [(completed_rung_key 0, 1), (completed_rung_key 1, 1)]"
  have h1: "init 1 4 0 = Inr default_pruner"
    by (simp add: init_def default_pruner_def)
  have h2: "get_trial (minimizing contenders) (trial_id ?t) = Some ?t"
    by code_simp
  have h3: "system_attrs ?t = system_attrs ?t"
    by simp
  have h4: "markers_form_prefix (system_attrs ?t)"
    by (simp add: reported_def no_markers_prefix)
  have e1: "prune default_pruner (minimizing contenders) ?t
     = Some (Inr False, write_rungs (minimizing contenders) 2 1 [0, 1])"
    by code_simp
  have e2: "get_trial (write_rungs (minimizing contenders) 2 1 [0, 1]) (trial_id ?t) = Some ?t'"
    by code_simp
  have e3: "system_attrs ?t' = [(completed_rung_key 0, 1), (completed_rung_key 1, 1)]"
    by (simp add: reported_def)
  from markers_stay_prefix [OF h1 h2 h3 h4] e1 e2
  have "markers_form_prefix (system_attrs ?t')"
    by auto
  with e3 have "markers_form_prefix [(completed_rung_key 0, 1::int), (completed_rung_key 1, 1)]"
    by simp
  with h1 h2 h4 e1 e2 show ?thesis
    by blast
qed

text \<open>
  C2 (as the code has it). Let the pruner be one that construction has accepted, and let
  the trial passed to the first call be its record in the store, with markers that form a
  prefix. Both calls return, the second one being made on the study as the first call left
  it and on the trial as stored there, whose last step and values are unchanged. The second
  call writes only markers of that trial, each for a rung that had no marker when it
  started, and no rung twice. When the first call has returned \<open>False\<close>, or has written
  nothing (as for a NaN value), the second call returns the same result and writes nothing.
\<close>

theorem repeated_call:
  assumes "init mr rf mesr = Inr self"
    and "get_trial study (trial_id trial) = Some trial"
    and "markers_form_prefix (system_attrs trial)"
  shows "\<exists>res1 study1 trial2 res2 study2 new.
           prune self study trial = Some (res1, study1) \<and>
           get_trial study1 (trial_id trial) = Some trial2 \<and>
           last_step trial2 = last_step trial \<and>
           intermediate_values trial2 = intermediate_values trial \<and>
           prune self study1 trial2 = Some (res2, study2) \<and>
           attr_writes study2 = new @ attr_writes study1 \<and>
           (\<forall>w \<in> set new. fst w = trial_id trial \<and>
                            map_of (system_attrs trial2) (fst (snd w)) = None) \<and>
           distinct (map (fst \<circ> snd) new) \<and>
           ((res1 = Inr False \<or> study1 = study) \<longrightarrow> res2 = res1 \<and> study2 = study1)"
proof -
  from init_Inr [OF assms(1)]
  have mr: "1 \<le> min_resource self" and rf: "2 \<le> reduction_factor self"
    and me: "0 \<le> min_early_stopping_rate self"
    by simp_all
  let ?tid = "trial_id trial"
  let ?r0 = "get_current_rung trial"
  from prune_outcome [OF mr rf me, of study trial]
  consider (quiet) res where "prune self study trial = Some (res, study)"
    | (ran) step v hi b where "last_step trial = Some step"
        "map_of (intermediate_values trial) step = Some (Num v)" "?r0 \<le> hi"
        "prune self study trial = Some (Inr b, write_rungs study ?tid v [?r0..<hi])"
        "b \<longrightarrow> ?r0 < hi" "\<not> b \<longrightarrow> step < rung_promotion_step self hi"
    by blast
  then show ?thesis
  proof cases
    case quiet
    show ?thesis
      using quiet assms(2)
      by (intro exI [of _ res] exI [of _ study] exI [of _ trial] exI [of _ "[]"]) simp
  next
    case ran
    let ?study1 = "write_rungs study ?tid v [?r0..<hi]"
    let ?trial2 = "trial\<lparr>system_attrs := mark_rungs v [?r0..<hi] (system_attrs trial)\<rparr>"
    have g: "get_trial ?study1 ?tid = Some ?trial2"
      using assms(2) by (simp add: get_trial_write_rungs)
    have m: "has_marker (system_attrs ?trial2) r = (r < hi)" for r
      using prefix_after_marking [OF assms(3), of hi v r] ran(3)
      by (simp add: get_current_rung_def)
    have c: "get_current_rung ?trial2 = hi"
      using m by (simp add: get_current_rung_def current_rung_loop_unique)
    have second: "prune self ?study1 ?trial2 = prune_loop self ?trial2 step (Num v) None ?study1 hi"
      using ran(1,2) c by (simp add: prune_def)
    show ?thesis
    proof (cases b)
      case False
      with ran(6) have "prune self ?study1 ?trial2 = Some (Inr False, ?study1)"
        by (simp add: second prune_loop_below)
      with False ran(4) g show ?thesis
        by (intro exI [of _ "Inr False"] exI [of _ ?study1] exI [of _ ?trial2] exI [of _ "[]"])
          simp
    next
      case True
      from prune_loop_run [OF mr rf me, of hi ?trial2 step v None ?study1]
      obtain hi2 b2 where hi2: "hi \<le> hi2"
        and run2: "prune self ?study1 ?trial2
                     = Some (Inr b2, write_rungs ?study1 ?tid v [hi..<hi2])"
        by (auto simp: second)
      let ?new = "rev (map (\<lambda>r. (?tid, completed_rung_key r, v)) [hi..<hi2])"
      have w: "attr_writes (write_rungs ?study1 ?tid v [hi..<hi2]) = ?new @ attr_writes ?study1"
        by (rule attr_writes_write_rungs)
      have unmarked: "map_of (system_attrs ?trial2) (completed_rung_key r) = None"
        if "hi \<le> r" for r
        using m [of r] that by (simp add: has_marker_def)
      have fresh: "\<forall>w \<in> set ?new. fst w = ?tid \<and>
                     map_of (system_attrs ?trial2) (fst (snd w)) = None"
        using unmarked by auto
      have d: "distinct (map (fst \<circ> snd) ?new)"
        by (simp add: rev_map [symmetric] distinct_map comp_def inj_on_def)
      have "length (attr_writes ?study1) \<noteq> length (attr_writes study)"
        using True ran(5) by (simp add: attr_writes_write_rungs)
      then have changed: "?study1 \<noteq> study" by auto
      show ?thesis
        using ran(4) g run2 w fresh d changed True
        by (intro exI [of _ "Inr True"] exI [of _ ?study1] exI [of _ ?trial2]
            exI [of _ "Inr b2"] exI [of _ "write_rungs ?study1 ?tid v [hi..<hi2]"]
            exI [of _ ?new]) simp
    qed
  qed
qed

theorem repeated_call_witness:
  "init 1 2 0 = Inr halving_pruner \<and>
   get_trial (minimizing [solo]) (trial_id solo) = Some solo \<and>
   markers_form_prefix (system_attrs solo) \<and>
   prune halving_pruner (minimizing [solo]) solo
     = Some (Inr False, write_rungs (minimizing [solo]) 0 10 [0, 1, 2]) \<and>
   get_trial (write_rungs (minimizing [solo]) 0 10 [0, 1, 2]) (trial_id solo)
     = Some (reported 0 5 (Num 10)
         [(completed_rung_key 0, 10), (completed_rung_key 1, 10), (completed_rung_key 2, 10)]) \<and>
   prune halving_pruner (write_rungs (minimizing [solo]) 0 10 [0, 1, 2])
       (reported 0 5 (Num 10)
         [(completed_rung_key 0, 10), (completed_rung_key 1, 10), (completed_rung_key 2, 10)])
     = Some (Inr False, write_rungs (minimizing [solo]) 0 10 [0, 1, 2])"
proof -
  have h1: "init 1 2 0 = Inr halving_pruner"
    by (simp add: init_def halving_pruner_def)
  have h2: "get_trial (minimizing [solo]) (trial_id solo) = Some solo"
    by code_simp
  have h3: "markers_form_prefix (system_attrs solo)"
    by (simp add: solo_def reported_def no_markers_prefix)
  have e1: "prune halving_pruner (minimizing [solo]) solo
     = Some (Inr False, write_rungs (minimizing [solo]) 0 10 [0, 1, 2])"
    by code_simp
  have e2: "get_trial (write_rungs (minimizing [solo]) 0 10 [0, 1, 2]) (trial_id solo)
     = Some (reported 0 5 (Num 10)
         [(completed_rung_key 0, 10), (completed_rung_key 1, 10), (completed_rung_key 2, 10)])"
    by code_simp
  have e3: "prune halving_pruner (write_rungs (minimizing [solo]) 0 10 [0, 1, 2])
       (reported 0 5 (Num 10)
         [(completed_rung_key 0, 10), (completed_rung_key 1, 10), (completed_rung_key 2, 10)])
     = Some (Inr False, write_rungs (minimizing [solo]) 0 10 [0, 1, 2])"
    by code_simp
  from repeated_call [OF h1 h2 h3] h1 h2 h3 e1 e2 e3 show ?thesis
    by blast
qed

text \<open>
  C2 as stated fails when the first call prunes on a lost comparison: the marker of that
  rung is written before the comparison, so the second call starts at the next rung. With
  \<open>min_resource = 1\<close> and \<open>reduction_factor = 2\<close>, a trial reports 2 at step 1 while
  another trial has completed rung 0 with 1: the first call writes the marker of rung 0 and
  returns \<open>True\<close>; the second call, on the same step and value, finds rung 0 marked,
  step 1 below the threshold 2 of rung 1, and returns \<open>False\<close>.
\<close>

theorem repeated_call_differs:
  "init 1 2 0 = Inr halving_pruner \<and>
   get_trial (minimizing [rival, loser]) (trial_id loser) = Some loser \<and>
   prune halving_pruner (minimizing [rival, loser]) loser
     = Some (Inr True, write_rungs (minimizing [rival, loser]) 1 2 [0]) \<and>
   get_trial (write_rungs (minimizing [rival, loser]) 1 2 [0]) (trial_id loser)
     = Some (reported 1 1 (Num 2) [(completed_rung_key 0, 2)]) \<and>
   last_step (reported 1 1 (Num 2) [(completed_rung_key 0, 2)]) = last_step loser \<and>
   intermediate_values (reported 1 1 (Num 2) [(completed_rung_key 0, 2)])
     = intermediate_values loser \<and>
   prune halving_pruner (write_rungs (minimizing [rival, loser]) 1 2 [0])
       (reported 1 1 (Num 2) [(completed_rung_key 0, 2)])
     = Some (Inr False, write_rungs (minimizing [rival, loser]) 1 2 [0])"
  by code_simp

end
